theory Spec2Isabelle
  imports Main "HOL-Library.Word" "HOL-Library.Multiset" "HOL-Library.Sublist"
begin

section \<open>JavaScript values used by RecentChats.tsx\<close>

text \<open>
  A JavaScript string is a sequence of UTF-16 code units; \<open>slice\<close> and \<open>startsWith\<close>
  count code units. The string literals of the source are ASCII and are written with
  \<open>js_lit\<close>.
\<close>

type_synonym code_unit = "16 word"
type_synonym js_string = "code_unit list"

definition js_lit :: "string \<Rightarrow> js_string" where
  "js_lit s = map (\<lambda>c. of_nat (of_char c)) s"

text \<open>
  \<open>xs.slice(start, fin)\<close> for non-negative arguments, on arrays and on strings: the
  elements from index \<open>start\<close> up to, not including, index \<open>fin\<close>, cut at the length.
\<close>

definition js_slice :: "nat \<Rightarrow> nat \<Rightarrow> 'a list \<Rightarrow> 'a list" where
  "js_slice start fin xs = take (fin - start) (drop start xs)"

text \<open>\<open>xs[i]\<close>: \<open>undefined\<close> (here \<open>None\<close>) when the index is out of range.\<close>

definition js_index :: "'a list \<Rightarrow> nat \<Rightarrow> 'a option" where
  "js_index xs i = (if i < length xs then Some (xs ! i) else None)"

definition startsWith :: "js_string \<Rightarrow> js_string \<Rightarrow> bool" where
  "startsWith s searchString = prefix searchString s"

text \<open>\<open>ToString\<close> on a value that is a string or \<open>undefined\<close>.\<close>

fun to_string :: "js_string option \<Rightarrow> js_string" where
  "to_string None = js_lit ''undefined''"
| "to_string (Some s) = s"

text \<open>\<open>x + s\<close> where \<open>s\<close> is a string: string concatenation after \<open>ToString\<close>.\<close>

definition js_plus :: "js_string option \<Rightarrow> js_string \<Rightarrow> js_string" where
  "js_plus x s = to_string x @ s"

text \<open>
  \<open>x || y\<close> where \<open>x\<close> is a string or \<open>undefined\<close>: both \<open>undefined\<close> and the empty
  string are falsy.
\<close>

definition js_or :: "js_string option \<Rightarrow> js_string \<Rightarrow> js_string" where
  "js_or x y = (case x of None \<Rightarrow> y | Some s \<Rightarrow> if s = [] then y else s)"

text \<open>\<open>x ?? d\<close>: the default only for \<open>null\<close> and \<open>undefined\<close>.\<close>

fun nullish :: "'a option \<Rightarrow> 'a \<Rightarrow> 'a" where
  "nullish None d = d"
| "nullish (Some x) d = x"

text \<open>
  The numbers the component computes with are time values and their differences:
  IEEE doubles that are integers, or \<open>NaN\<close>.
\<close>

datatype number = NaN | Num int

text \<open>
  The double nearest to an integer \<open>d\<close> with \<open>\<bar>d\<bar> < 2 ^ 54\<close>, which every difference of
  two time values is: \<open>d\<close> itself up to \<open>2 ^ 53\<close>; beyond that the doubles are the even
  integers, and an odd \<open>d\<close> lies half way between two of them and goes to the one with
  the even significand, the multiple of 4.
\<close>

definition round_to_double :: "int \<Rightarrow> int" where
  "round_to_double d =
     (if \<bar>d\<bar> \<le> 2 ^ 53 then d
      else if even d then d
      else if 4 dvd (d + 1) then d + 1 else d - 1)"

text \<open>\<open>x - y\<close> on numbers: \<open>NaN\<close> when an operand is \<open>NaN\<close>.\<close>

fun js_minus :: "number \<Rightarrow> number \<Rightarrow> number" where
  "js_minus (Num x) (Num y) = Num (round_to_double (x - y))"
| "js_minus x y = NaN"

text \<open>\<open>x >= y\<close> on numbers: false when an operand is \<open>NaN\<close>.\<close>

fun number_ge :: "number \<Rightarrow> number \<Rightarrow> bool" where
  "number_ge (Num x) (Num y) = (y \<le> x)"
| "number_ge x y = False"

text \<open>
  \<open>Array.prototype.sort(comparefn)\<close>: a stable sort; \<open>a\<close> is placed before \<open>b\<close> when
  \<open>comparefn(a, b) < 0\<close>, after it when \<open>comparefn(a, b) > 0\<close>, and elements that compare
  as \<open>0\<close> keep their order. A result of \<open>comparefn\<close> that is \<open>NaN\<close> counts as \<open>0\<close>
  (\<open>sort_compare\<close>). The array is sorted in place: the result is also the new content of
  the array it was called on. Where \<open>comparefn\<close> is not a consistent order, which the
  standard leaves to the implementation, the model is the insertion of each element
  into the sorted rest.
\<close>

fun sort_compare :: "number \<Rightarrow> int" where
  "sort_compare NaN = 0"
| "sort_compare (Num v) = v"

fun place :: "('a \<Rightarrow> 'a \<Rightarrow> number) \<Rightarrow> 'a \<Rightarrow> 'a list \<Rightarrow> 'a list" where
  "place comparefn a [] = [a]"
| "place comparefn a (b # bs) =
     (if sort_compare (comparefn a b) \<le> 0 then a # b # bs else b # place comparefn a bs)"

fun js_sort :: "('a \<Rightarrow> 'a \<Rightarrow> number) \<Rightarrow> 'a list \<Rightarrow> 'a list" where
  "js_sort comparefn [] = []"
| "js_sort comparefn (a # as) = place comparefn a (js_sort comparefn as)"

section \<open>Data model\<close>

text \<open>
  \<open>Date v\<close> is the date that \<open>new Date(v)\<close> makes. Its time value, which \<open>getTime()\<close>
  reads, is \<open>v\<close> in milliseconds since the epoch when \<open>v\<close> is within 8.64e15 of it, and
  \<open>NaN\<close> otherwise (\<open>TimeClip\<close>): the date is then an invalid date.
\<close>

datatype date = Date (date_value: number)

fun TimeClip :: "number \<Rightarrow> number" where
  "TimeClip NaN = NaN"
| "TimeClip (Num t) = (if \<bar>t\<bar> \<le> 8640000000000000 then Num t else NaN)"

definition getTime :: "date \<Rightarrow> number" where
  "getTime d = TimeClip (date_value d)"

definition valid_date :: "date \<Rightarrow> bool" where
  "valid_date d = (getTime d \<noteq> NaN)"

text \<open>\<open>x >= y\<close> on two dates compares their time values as numbers.\<close>

definition date_ge :: "date \<Rightarrow> date \<Rightarrow> bool" where
  "date_ge x y = number_ge (getTime x) (getTime y)"

text \<open>The milliseconds of a valid date.\<close>

definition millis :: "date \<Rightarrow> int" where
  "millis d = sort_compare (getTime d)"

record Message =
  message :: js_string

record Chat =
  chat_id :: js_string
  title :: "js_string option"
  messages :: "Message list"
  lastMessageAt :: date

text \<open>What an awaited promise gives: its value, or the reason it was rejected with.\<close>

datatype error = Error string

datatype 'a settled = Fulfilled 'a | Rejected error

section \<open>Loading the recent chats\<close>

text \<open>The compare function of lines 21--23.\<close>

definition compareChats :: "Chat \<Rightarrow> Chat \<Rightarrow> number" where
  "compareChats a b =
     js_minus (nullish (Some (getTime (lastMessageAt b))) (Num 0))
       (nullish (Some (getTime (lastMessageAt a))) (Num 0))"

text \<open>Lines 19--25: \<open>allChats.sort(...).slice(0, 5)\<close>.\<close>

definition recent :: "Chat list \<Rightarrow> Chat list" where
  "recent allChats = js_slice 0 5 (js_sort compareChats allChats)"

text \<open>
  \<open>loadRecentChats\<close>, lines 16--28, given what \<open>await chatCache.getAll()\<close> gives and the
  current \<open>recentChats\<close>: how the promise of the async function settles, and the new
  \<open>recentChats\<close>. A rejected read is rethrown by \<open>await\<close>; the function has no
  \<open>try\<close>, so its own promise is rejected with the same reason.
\<close>

definition loadRecentChats :: "Chat list settled \<Rightarrow> Chat list \<Rightarrow> unit settled \<times> Chat list" where
  "loadRecentChats got recentChats =
     (case got of
        Rejected e \<Rightarrow> (Rejected e, recentChats)
      | Fulfilled allChats \<Rightarrow>
          if length allChats > 0 then (Fulfilled (), recent allChats)
          else (Fulfilled (), recentChats))"

section \<open>Rendering\<close>

datatype Locale = zhCN

record format_options =
  addSuffix :: bool
  locale_option :: "Locale option"

text \<open>
  The collaborators of the component: the active language \<open>i18n.language\<close>, the
  translation function \<open>t\<close>, and \<open>formatDistanceToNow\<close> of date-fns (which also reads
  the clock). The formatter is taken as a function that gives a string for the date and
  the options it is called with; what date-fns itself does with a date is outside the
  model.
\<close>

record env =
  i18n_language :: js_string
  translate :: "js_string \<Rightarrow> js_string"
  formatDistanceToNow :: "date \<Rightarrow> format_options \<Rightarrow> js_string"

definition getLocale :: "env \<Rightarrow> Locale option" where
  "getLocale E = (if startsWith (i18n_language E) (js_lit ''zh'') then Some zhCN else None)"

text \<open>
  The children of the outer \<open>div\<close>: one link per chat (lines 40--57) and the link to
  the chat history (lines 60--65).
\<close>

datatype row =
  ChatRow (row_key: js_string) (row_chatId: js_string) (row_label: js_string) (row_time: js_string)
| ViewAllRow (row_text: js_string)

fun is_view_all :: "row \<Rightarrow> bool" where
  "is_view_all (ChatRow k i l d) = False"
| "is_view_all (ViewAllRow s) = True"

fun row_to :: "row \<Rightarrow> js_string" where
  "row_to (ChatRow k i l d) = js_lit ''/chat''"
| "row_to (ViewAllRow s) = js_lit ''/chat-history''"

text \<open>Line 48: \<open>chat.title || chat.messages[0]?.message.slice(0, 20) + "..."\<close>.\<close>

definition chat_label :: "Chat \<Rightarrow> js_string" where
  "chat_label chat =
     js_or (title chat)
       (js_plus (map_option (\<lambda>m. js_slice 0 20 (message m)) (js_index (messages chat) 0))
          (js_lit ''...''))"

definition chat_row :: "env \<Rightarrow> Chat \<Rightarrow> row" where
  "chat_row E chat =
     ChatRow (chat_id chat) (chat_id chat) (chat_label chat)
       (formatDistanceToNow E (lastMessageAt chat) \<lparr>addSuffix = True, locale_option = getLocale E\<rparr>)"

definition render :: "env \<Rightarrow> Chat list \<Rightarrow> row list" where
  "render E recentChats =
     map (chat_row E) recentChats @
     (if length recentChats > 0 then [ViewAllRow (translate E (js_lit ''recent_chats.view_all_chats''))]
      else [])"

section \<open>The component over its lifetime\<close>

text \<open>
  One activation of the component. \<open>useState([])\<close> starts \<open>recentChats\<close> empty; the
  effect has the dependency list \<open>[]\<close>, so it runs once, after the first render, and calls
  \<open>loadRecentChats()\<close>, which calls \<open>chatCache.getAll()\<close> and suspends. The promise that
  \<open>loadRecentChats()\<close> returns is dropped (line 30): a rejection of it has no handler.
\<close>

record component =
  recentChats :: "Chat list"
  pending :: bool
  getAll_calls :: nat
  unhandled :: "error list"

definition mount :: component where
  "mount = \<lparr>recentChats = [], pending = True, getAll_calls = 1, unhandled = []\<rparr>"

datatype event = Settle "Chat list settled" | Rerender

text \<open>
  \<open>Settle got\<close>: the read settles and \<open>loadRecentChats\<close> resumes; a promise settles
  once, so there is nothing to resume when no read is pending. \<open>Rerender\<close>: the component
  function runs again; the effect does not.
\<close>

fun step :: "component \<Rightarrow> event \<Rightarrow> component" where
  "step c (Settle got) =
     (if pending c then
        (case loadRecentChats got (recentChats c) of
           (Fulfilled u, chats) \<Rightarrow> c\<lparr>recentChats := chats, pending := False\<rparr>
         | (Rejected e, chats) \<Rightarrow>
             c\<lparr>recentChats := chats, pending := False, unhandled := unhandled c @ [e]\<rparr>)
      else c)"
| "step c Rerender = c"

definition run :: "event list \<Rightarrow> component" where
  "run evs = foldl step mount evs"

text \<open>What the user sees after the given events.\<close>

definition view :: "env \<Rightarrow> event list \<Rightarrow> row list" where
  "view E evs = render E (recentChats (run evs))"

datatype phase = Empty | Populated

definition phase_of :: "component \<Rightarrow> phase" where
  "phase_of c = (if recentChats c = [] then Empty else Populated)"

text \<open>
  The operation the specification calls \<open>loadRecent()\<close>: what the component holds once
  it is mounted and its read has given \<open>allChats\<close>.
\<close>

definition loadRecent :: "Chat list \<Rightarrow> Chat list" where
  "loadRecent allChats = recentChats (run [Settle (Fulfilled allChats)])"

text \<open>How often the component goes from phase \<open>p\<close> to phase \<open>q\<close> along the events.\<close>

fun count_transitions :: "phase \<Rightarrow> phase \<Rightarrow> component \<Rightarrow> event list \<Rightarrow> nat" where
  "count_transitions p q c [] = 0"
| "count_transitions p q c (e # es) =
     (if phase_of c = p \<and> phase_of (step c e) = q then 1 else 0) +
     count_transitions p q (step c e) es"

section \<open>Example data\<close>

definition T_now :: int where
  "T_now = 1700000000000"

definition chat_at :: "string \<Rightarrow> int \<Rightarrow> Chat" where
  "chat_at name ms =
     \<lparr>chat_id = js_lit name, title = Some (js_lit name), messages = [], lastMessageAt = Date (Num ms)\<rparr>"

definition six_chats :: "Chat list" where
  "six_chats =
     [chat_at ''c3'' (T_now - 3), chat_at ''c6'' (T_now - 6), chat_at ''c1'' (T_now - 1),
      chat_at ''c5'' (T_now - 5), chat_at ''c2'' (T_now - 2), chat_at ''c4'' (T_now - 4)]"

definition invalid_chat :: Chat where
  "invalid_chat =
     \<lparr>chat_id = js_lit ''bad'', title = Some (js_lit ''bad''), messages = [],
      lastMessageAt = Date NaN\<rparr>"

definition three_chats :: "Chat list" where
  "three_chats = [chat_at ''a'' 1, invalid_chat, chat_at ''b'' 2]"

definition six_chats_one_invalid :: "Chat list" where
  "six_chats_one_invalid =
     [chat_at ''c1'' 1, invalid_chat, chat_at ''c2'' 2, chat_at ''c3'' 3, chat_at ''c4'' 4,
      chat_at ''c5'' 5]"

definition empty_title_chat :: Chat where
  "empty_title_chat =
     \<lparr>chat_id = js_lit ''e'', title = Some [],
      messages = [\<lparr>message = js_lit ''hello''\<rparr>], lastMessageAt = Date (Num T_now)\<rparr>"

definition long_message_chat :: Chat where
  "long_message_chat =
     \<lparr>chat_id = js_lit ''m'', title = None,
      messages = [\<lparr>message = js_lit ''what is the price of solana today''\<rparr>,
                  \<lparr>message = js_lit ''thanks''\<rparr>],
      lastMessageAt = Date (Num T_now)\<rparr>"

definition no_message_chat :: Chat where
  "no_message_chat =
     \<lparr>chat_id = js_lit ''n'', title = None, messages = [], lastMessageAt = Date (Num T_now)\<rparr>"

definition example_env :: "string \<Rightarrow> env" where
  "example_env lang =
     \<lparr>i18n_language = js_lit lang,
      translate = (\<lambda>k. k),
      formatDistanceToNow =
        (\<lambda>d opts. case locale_option opts of None \<Rightarrow> js_lit ''en'' | Some zhCN \<Rightarrow> js_lit ''zh'')\<rparr>"

section \<open>The sort rearranges the array into descending time order\<close>

lemma mset_place: "mset (place f a bs) = add_mset a (mset bs)"
  by (induction bs) auto

lemma mset_js_sort: "mset (js_sort f xs) = mset xs"
  by (induction xs) (auto simp: mset_place)

lemma set_place: "set (place f a bs) = insert a (set bs)"
  by (induction bs) auto

lemma length_js_sort: "length (js_sort f xs) = length xs"
proof -
  have "size (mset (js_sort f xs)) = size (mset xs)"
    by (simp only: mset_js_sort)
  then show ?thesis by simp
qed

lemma set_js_sort: "set (js_sort f xs) = set xs"
proof -
  have "set_mset (mset (js_sort f xs)) = set_mset (mset xs)"
    by (simp only: mset_js_sort)
  then show ?thesis by simp
qed

lemma round_to_double_le: "(round_to_double d \<le> 0) = (d \<le> 0)"
proof (cases "\<bar>d\<bar> \<le> 2 ^ 53")
  case True
  then show ?thesis by (simp add: round_to_double_def)
next
  case False
  then have "d < - 1 \<or> 1 < d"
    by auto
  then show ?thesis
    using False by (auto simp: round_to_double_def)
qed

lemma valid_date_Num: "valid_date d \<Longrightarrow> getTime d = Num (millis d)"
  by (cases "getTime d") (simp_all add: valid_date_def millis_def)

lemma date_ge_valid:
  "valid_date x \<Longrightarrow> valid_date y \<Longrightarrow> date_ge x y = (millis y \<le> millis x)"
  by (simp add: date_ge_def valid_date_Num)

lemma compareChats_le:
  assumes "valid_date (lastMessageAt a)" and "valid_date (lastMessageAt b)"
  shows "(sort_compare (compareChats a b) \<le> 0) =
         (millis (lastMessageAt b) \<le> millis (lastMessageAt a))"
  using assms by (simp add: compareChats_def valid_date_Num round_to_double_le)

lemma sorted_place:
  assumes "valid_date (lastMessageAt a)"
    and "\<forall>b \<in> set bs. valid_date (lastMessageAt b)"
    and "sorted_wrt (\<lambda>x y. millis (lastMessageAt y) \<le> millis (lastMessageAt x)) bs"
  shows "sorted_wrt (\<lambda>x y. millis (lastMessageAt y) \<le> millis (lastMessageAt x))
           (place compareChats a bs)"
  using assms
proof (induction bs)
  case Nil
  then show ?case by simp
next
  case (Cons b bs)
  then have cmp: "(sort_compare (compareChats a b) \<le> 0) =
                  (millis (lastMessageAt b) \<le> millis (lastMessageAt a))"
    by (simp add: compareChats_le)
  show ?case
  proof (cases "sort_compare (compareChats a b) \<le> 0")
    case True
    with Cons.prems cmp show ?thesis
      by auto
  next
    case False
    with Cons cmp show ?thesis
      by (auto simp: set_place)
  qed
qed

lemma sorted_js_sort:
  assumes "\<forall>c \<in> set xs. valid_date (lastMessageAt c)"
  shows "sorted_wrt (\<lambda>x y. millis (lastMessageAt y) \<le> millis (lastMessageAt x))
           (js_sort compareChats xs)"
  using assms by (induction xs) (simp_all add: sorted_place set_js_sort)

lemma recent_eq: "recent xs = take 5 (js_sort compareChats xs)"
  by (simp add: recent_def js_slice_def)

lemma sorted_recent:
  assumes "\<forall>c \<in> set xs. valid_date (lastMessageAt c)"
  shows "sorted_wrt (\<lambda>x y. millis (lastMessageAt y) \<le> millis (lastMessageAt x)) (recent xs)"
  using assms by (simp add: recent_eq sorted_js_sort)

lemma length_recent: "length (recent xs) = min 5 (length xs)"
  by (simp add: recent_eq length_js_sort min.commute)

lemma recent_Nil_iff: "(recent xs = []) = (xs = [])"
proof -
  have "(length (recent xs) = 0) = (length xs = 0)"
    by (simp only: length_recent) (auto simp: min_def)
  then show ?thesis by simp
qed

lemma mset_recent: "mset (recent xs) \<subseteq># mset xs"
proof -
  have "mset (js_sort compareChats xs) =
        mset (take 5 (js_sort compareChats xs)) + mset (drop 5 (js_sort compareChats xs))"
    by (simp only: union_code append_take_drop_id)
  then have "mset (take 5 (js_sort compareChats xs)) \<subseteq># mset (js_sort compareChats xs)"
    by (metis mset_subset_eq_add_left)
  then show ?thesis
    by (simp add: recent_eq mset_js_sort)
qed

lemma set_recent: "set (recent xs) \<subseteq> set xs"
  using set_mset_mono [OF mset_recent [of xs]] by simp

section \<open>The component's steps\<close>

lemma loadRecentChats_Fulfilled:
  "loadRecentChats (Fulfilled allChats) st = (Fulfilled (), if allChats = [] then st else recent allChats)"
  by (simp add: loadRecentChats_def)

lemma loadRecentChats_Rejected: "loadRecentChats (Rejected e) st = (Rejected e, st)"
  by (simp add: loadRecentChats_def)

lemma step_cases:
  obtains (same) "recentChats (step c e) = recentChats c"
  | (loaded) allChats where "e = Settle (Fulfilled allChats)" "allChats \<noteq> []" "pending c"
      "recentChats (step c e) = recent allChats"
proof (cases e)
  case Rerender
  then show ?thesis using same by simp
next
  case (Settle got)
  show ?thesis
  proof (cases got)
    case (Rejected err)
    with Settle show ?thesis using same by (simp add: loadRecentChats_Rejected)
  next
    case (Fulfilled allChats)
    show ?thesis
    proof (cases "pending c \<and> allChats \<noteq> []")
      case True
      with Settle Fulfilled show ?thesis using loaded [of allChats] by (simp add: loadRecentChats_Fulfilled)
    next
      case False
      with Settle Fulfilled show ?thesis using same by (auto simp: loadRecentChats_Fulfilled)
    qed
  qed
qed

lemma run_snoc: "run (evs @ [e]) = step (run evs) e"
  by (simp add: run_def)

lemma step_not_pending: "\<not> pending c \<Longrightarrow> step c e = c"
  by (cases e) simp_all

lemma foldl_step_not_pending: "\<not> pending c \<Longrightarrow> foldl step c evs = c"
  by (induction evs) (simp_all add: step_not_pending)

lemma foldl_step_Rerender: "foldl step c (replicate n Rerender) = c"
  by (induction n) simp_all

lemma step_length_le:
  assumes "length (recentChats c) \<le> 5"
  shows "length (recentChats (step c e)) \<le> 5"
proof (cases rule: step_cases [of c e])
  case same
  with assms show ?thesis by simp
next
  case (loaded allChats)
  then show ?thesis by (simp add: length_recent)
qed

lemma foldl_step_length_le:
  "length (recentChats c) \<le> 5 \<Longrightarrow> length (recentChats (foldl step c evs)) \<le> 5"
  by (induction evs arbitrary: c) (simp_all add: step_length_le)

lemma run_length_le: "length (recentChats (run evs)) \<le> 5"
  unfolding run_def by (rule foldl_step_length_le) (simp add: mount_def)

lemma step_stays_populated:
  assumes "phase_of c = Populated"
  shows "phase_of (step c e) = Populated"
proof (cases rule: step_cases [of c e])
  case same
  with assms show ?thesis by (simp add: phase_of_def)
next
  case (loaded allChats)
  then show ?thesis by (simp add: phase_of_def recent_Nil_iff)
qed

lemma no_transition_from_populated:
  "phase_of c = Populated \<Longrightarrow> count_transitions Empty Populated c es = 0"
  by (induction es arbitrary: c) (simp_all add: step_stays_populated)

lemma populate_at_most_once: "count_transitions Empty Populated c es \<le> 1"
proof (induction es arbitrary: c)
  case Nil
  show ?case by simp
next
  case (Cons e es)
  show ?case
  proof (cases "phase_of c = Empty \<and> phase_of (step c e) = Populated")
    case True
    then show ?thesis by (simp add: no_transition_from_populated)
  next
    case False
    then have "count_transitions Empty Populated c (e # es) =
               count_transitions Empty Populated (step c e) es"
      by auto
    with Cons.IH [of "step c e"] show ?thesis by simp
  qed
qed

lemma never_back_to_empty: "count_transitions Populated Empty c es = 0"
proof (induction es arbitrary: c)
  case Nil
  show ?case by simp
next
  case (Cons e es)
  have "\<not> (phase_of c = Populated \<and> phase_of (step c e) = Empty)"
    using step_stays_populated [of c e] by auto
  with Cons.IH [of "step c e"] show ?case by simp
qed

lemma populate_only_on_read:
  assumes "phase_of c = Empty" "phase_of (step c e) = Populated"
  shows "pending c \<and> (\<exists>allChats. allChats \<noteq> [] \<and> e = Settle (Fulfilled allChats))"
proof (cases rule: step_cases [of c e])
  case same
  with assms show ?thesis by (simp add: phase_of_def)
next
  case (loaded allChats)
  then show ?thesis by blast
qed

lemma loadRecent_eq: "loadRecent allChats = recent allChats"
proof (cases "allChats = []")
  case True
  then show ?thesis
    by (simp add: loadRecent_def run_def mount_def loadRecentChats_Fulfilled recent_eq)
next
  case False
  then show ?thesis
    by (simp add: loadRecent_def run_def mount_def loadRecentChats_Fulfilled)
qed

section \<open>Loading: bound, order, selection, frame\<close>

text \<open>
  C2. Whatever chats the cache's \<open>getAll\<close> gives, \<open>loadRecent()\<close> stores at most 5
  entries, the component never holds more than 5 after any events, and at most 5 chat
  rows are shown.
\<close>

theorem loadRecent_at_most_5:
  "length (loadRecent allChats) \<le> 5 \<and>
   length (recentChats (run evs)) \<le> 5 \<and>
   length (filter (\<lambda>r. \<not> is_view_all r) (render E (loadRecent allChats))) \<le> 5"
proof -
  have a: "length (loadRecent allChats) \<le> 5"
    by (simp add: loadRecent_eq length_recent)
  have "filter (\<lambda>r. \<not> is_view_all r) (render E chats) = map (chat_row E) chats" for chats
    by (induction chats) (simp_all add: render_def chat_row_def)
  with a show ?thesis
    by (simp add: run_length_le)
qed

text \<open>
  C3, as the code has it. When every cached chat has a valid \<open>lastMessageAt\<close>, the
  sequence \<open>loadRecent()\<close> gives is in descending order of \<open>lastMessageAt\<close>: for an
  entry \<open>a\<close> at position \<open>i\<close> and an entry \<open>b\<close> at a later position \<open>j\<close>,
  \<open>a.lastMessageAt >= b.lastMessageAt\<close>.
\<close>

theorem loadRecent_sorted_descending:
  assumes "\<forall>c \<in> set allChats. valid_date (lastMessageAt c)"
    and "i < j" and "j < length (loadRecent allChats)"
  shows "date_ge (lastMessageAt (loadRecent allChats ! i)) (lastMessageAt (loadRecent allChats ! j))"
proof -
  let ?r = "loadRecent allChats"
  have "sorted_wrt (\<lambda>x y. millis (lastMessageAt y) \<le> millis (lastMessageAt x)) ?r"
    using assms(1) by (simp only: loadRecent_eq sorted_recent)
  with assms(2,3) have le: "millis (lastMessageAt (?r ! j)) \<le> millis (lastMessageAt (?r ! i))"
    by (simp only: sorted_wrt_iff_nth_less)
  have "set ?r \<subseteq> set allChats"
    by (simp only: loadRecent_eq set_recent)
  moreover have "?r ! i \<in> set ?r" and "?r ! j \<in> set ?r"
    using assms(2,3) by simp_all
  ultimately have "valid_date (lastMessageAt (?r ! i))" and "valid_date (lastMessageAt (?r ! j))"
    using assms(1) by blast+
  with le show ?thesis
    by (simp add: date_ge_valid)
qed

theorem loadRecent_sorted_descending_witness:
  "list_all (\<lambda>c. valid_date (lastMessageAt c)) six_chats \<and>
   (0::nat) < 4 \<and> 4 < length (loadRecent six_chats) \<and>
   date_ge (lastMessageAt (loadRecent six_chats ! 0)) (lastMessageAt (loadRecent six_chats ! 4)) \<and>
   map lastMessageAt (loadRecent six_chats) =
     [Date (Num (T_now - 1)), Date (Num (T_now - 2)), Date (Num (T_now - 3)),
      Date (Num (T_now - 4)), Date (Num (T_now - 5))]"
proof -
  have valid: "\<forall>c \<in> set six_chats. valid_date (lastMessageAt c)"
    by (simp add: six_chats_def chat_at_def valid_date_def getTime_def T_now_def)
  have len: "4 < length (loadRecent six_chats)"
    by (simp add: loadRecent_eq length_recent six_chats_def)
  have "map lastMessageAt (loadRecent six_chats) =
     [Date (Num (T_now - 1)), Date (Num (T_now - 2)), Date (Num (T_now - 3)),
      Date (Num (T_now - 4)), Date (Num (T_now - 5))]"
    by (simp add: loadRecent_eq recent_def js_slice_def six_chats_def chat_at_def compareChats_def
        getTime_def round_to_double_def T_now_def)
  with valid len loadRecent_sorted_descending [OF valid, of 0 4] show ?thesis
    by (simp add: list_all_iff)
qed

text \<open>
  C3, as the specification states it, fails when a cached chat has an invalid date:
  its time value is \<open>NaN\<close>, which \<open>?? 0\<close> lets through, the compare function gives
  \<open>NaN\<close> against it, and the chat of time 1 stays before the chat of time 2.
\<close>

theorem loadRecent_sorted_descending_counterexample:
  "loadRecent three_chats = [chat_at ''a'' 1, invalid_chat, chat_at ''b'' 2] \<and>
   \<not> ((0::nat) < 2 \<and> 2 < length (loadRecent three_chats) \<longrightarrow>
      date_ge (lastMessageAt (loadRecent three_chats ! 0)) (lastMessageAt (loadRecent three_chats ! 2)))"
proof -
  have "loadRecent three_chats = [chat_at ''a'' 1, invalid_chat, chat_at ''b'' 2]"
    by (simp add: loadRecent_eq recent_def js_slice_def three_chats_def chat_at_def
        invalid_chat_def compareChats_def getTime_def round_to_double_def)
  then show ?thesis
    by (simp add: chat_at_def date_ge_def getTime_def)
qed

text \<open>
  C4, as the code has it. When the cache holds more than 5 chats, each with a valid
  \<open>lastMessageAt\<close>, \<open>loadRecent()\<close> gives exactly 5 of them, and every chat it drops is
  no more recent than any chat it keeps. For the six chats with \<open>lastMessageAt\<close> from
  \<open>T - 1\<close> to \<open>T - 6\<close> it gives those of \<open>T - 1\<close> to \<open>T - 5\<close> and drops that of
  \<open>T - 6\<close>.
\<close>

theorem loadRecent_keeps_5_most_recent:
  assumes "\<forall>c \<in> set allChats. valid_date (lastMessageAt c)"
    and "5 < length allChats"
  shows "length (loadRecent allChats) = 5 \<and>
         (\<exists>older. mset allChats = mset (loadRecent allChats) + mset older \<and>
            (\<forall>a \<in> set (loadRecent allChats). \<forall>b \<in> set older.
               date_ge (lastMessageAt a) (lastMessageAt b)))"
proof -
  let ?s = "js_sort compareChats allChats"
  let ?le = "\<lambda>x y. millis (lastMessageAt y) \<le> millis (lastMessageAt x)"
  have len: "length (loadRecent allChats) = 5"
    using assms(2) by (simp add: loadRecent_eq length_recent)
  have "mset ?s = mset (take 5 ?s) + mset (drop 5 ?s)"
    by (simp only: union_code append_take_drop_id)
  then have split: "mset allChats = mset (loadRecent allChats) + mset (drop 5 ?s)"
    by (simp add: loadRecent_eq recent_eq mset_js_sort)
  have valid: "\<forall>c \<in> set ?s. valid_date (lastMessageAt c)"
    using assms(1) by (simp only: set_js_sort)
  have "sorted_wrt ?le (take 5 ?s @ drop 5 ?s)"
    using assms(1) by (simp only: append_take_drop_id sorted_js_sort)
  then have "\<forall>a \<in> set (take 5 ?s). \<forall>b \<in> set (drop 5 ?s). ?le a b"
    by (simp only: sorted_wrt_append) blast
  moreover have "\<forall>a \<in> set (take 5 ?s). valid_date (lastMessageAt a)"
    using valid by (meson in_set_takeD)
  moreover have "\<forall>b \<in> set (drop 5 ?s). valid_date (lastMessageAt b)"
    using valid by (meson in_set_dropD)
  ultimately have "\<forall>a \<in> set (take 5 ?s). \<forall>b \<in> set (drop 5 ?s).
      date_ge (lastMessageAt a) (lastMessageAt b)"
    by (simp add: date_ge_valid)
  then have "\<forall>a \<in> set (loadRecent allChats). \<forall>b \<in> set (drop 5 ?s).
      date_ge (lastMessageAt a) (lastMessageAt b)"
    by (simp only: loadRecent_eq recent_eq)
  with len split show ?thesis
    by blast
qed

theorem loadRecent_keeps_5_most_recent_witness:
  "list_all (\<lambda>c. valid_date (lastMessageAt c)) six_chats \<and>
   5 < length six_chats \<and>
   loadRecent six_chats =
     [chat_at ''c1'' (T_now - 1), chat_at ''c2'' (T_now - 2), chat_at ''c3'' (T_now - 3),
      chat_at ''c4'' (T_now - 4), chat_at ''c5'' (T_now - 5)] \<and>
   length (loadRecent six_chats) = 5 \<and>
   (\<exists>older. mset six_chats = mset (loadRecent six_chats) + mset older \<and>
      (\<forall>a \<in> set (loadRecent six_chats). \<forall>b \<in> set older.
         date_ge (lastMessageAt a) (lastMessageAt b)))"
proof -
  have valid: "\<forall>c \<in> set six_chats. valid_date (lastMessageAt c)"
    by (simp add: six_chats_def chat_at_def valid_date_def getTime_def T_now_def)
  have six: "5 < length six_chats"
    by (simp add: six_chats_def)
  have "loadRecent six_chats =
     [chat_at ''c1'' (T_now - 1), chat_at ''c2'' (T_now - 2), chat_at ''c3'' (T_now - 3),
      chat_at ''c4'' (T_now - 4), chat_at ''c5'' (T_now - 5)]"
    by (simp add: loadRecent_eq recent_def js_slice_def six_chats_def chat_at_def compareChats_def
        getTime_def round_to_double_def T_now_def)
  with valid six loadRecent_keeps_5_most_recent [OF valid six] show ?thesis
    by (simp add: list_all_iff)
qed

text \<open>
  C4, as the specification states it, fails when a cached chat has an invalid date:
  of six chats, one of them invalid, the chat of time 1 is kept and the more recent chat
  of time 2 is dropped.
\<close>

theorem loadRecent_keeps_5_most_recent_counterexample:
  "5 < length six_chats_one_invalid \<and>
   loadRecent six_chats_one_invalid =
     [chat_at ''c1'' 1, invalid_chat, chat_at ''c5'' 5, chat_at ''c4'' 4, chat_at ''c3'' 3] \<and>
   chat_at ''c1'' 1 \<in> set (loadRecent six_chats_one_invalid) \<and>
   chat_at ''c2'' 2 \<in> set six_chats_one_invalid \<and>
   chat_at ''c2'' 2 \<notin> set (loadRecent six_chats_one_invalid) \<and>
   \<not> date_ge (lastMessageAt (chat_at ''c1'' 1)) (lastMessageAt (chat_at ''c2'' 2))"
proof -
  have r: "loadRecent six_chats_one_invalid =
     [chat_at ''c1'' 1, invalid_chat, chat_at ''c5'' 5, chat_at ''c4'' 4, chat_at ''c3'' 3]"
    by (simp add: loadRecent_eq recent_def js_slice_def six_chats_one_invalid_def chat_at_def
        invalid_chat_def compareChats_def getTime_def round_to_double_def)
  have "chat_at ''c2'' 2 \<notin>
        set [chat_at ''c1'' 1, invalid_chat, chat_at ''c5'' 5, chat_at ''c4'' 4, chat_at ''c3'' 3]"
    by (simp add: chat_at_def invalid_chat_def)
  with r show ?thesis
    by (simp add: six_chats_one_invalid_def) (simp add: chat_at_def date_ge_def getTime_def)
qed

text \<open>
  C9. \<open>loadRecent()\<close> changes no Chat: sorting leaves in the array exactly the chats
  that were read, each as often as before, and every chat that is stored is one of them,
  with every field as it was read.
\<close>

theorem loadRecent_changes_no_chat:
  "mset (js_sort compareChats allChats) = mset allChats \<and>
   mset (loadRecent allChats) \<subseteq># mset allChats"
  by (simp add: mset_js_sort loadRecent_eq mset_recent)

section \<open>Rendering: rows, labels, times\<close>



text \<open>
  C6, as the code has it. The label of a chat row is the chat's title, verbatim, when
  the title is set and not the empty string; when the title is absent or the empty
  string and the chat has a first message, the label is the first 20 code units of that
  message followed by \<open>...\<close>.
\<close>

theorem chat_row_label:
  "(title chat = Some s \<and> s \<noteq> [] \<longrightarrow> row_label (chat_row E chat) = s) \<and>
   ((title chat = None \<or> title chat = Some []) \<and> messages chat = m # ms \<longrightarrow>
      row_label (chat_row E chat) = take 20 (message m) @ js_lit ''...'')"
  by (auto simp: chat_row_def chat_label_def js_or_def js_plus_def js_index_def js_slice_def)

theorem chat_row_label_witness:
  "row_label (chat_row (example_env ''en'') (chat_at ''c1'' T_now)) = js_lit ''c1'' \<and>
   row_label (chat_row (example_env ''en'') long_message_chat) = js_lit ''what is the price of...'' \<and>
   row_label (chat_row (example_env ''en'') empty_title_chat) = js_lit ''hello...''"
  using chat_row_label [of "chat_at ''c1'' T_now" "js_lit ''c1''" "example_env ''en''"]
    chat_row_label [of long_message_chat _ "example_env ''en''"
      "\<lparr>message = js_lit ''what is the price of solana today''\<rparr>" "[\<lparr>message = js_lit ''thanks''\<rparr>]"]
    chat_row_label [of empty_title_chat _ "example_env ''en''" "\<lparr>message = js_lit ''hello''\<rparr>" "[]"]
  by (simp add: chat_at_def long_message_chat_def empty_title_chat_def js_lit_def)

text \<open>
  C6, as the specification states it, fails for a chat whose title is set to the empty
  string: the label is not that title but the preview of the first message.
\<close>

theorem chat_row_label_counterexample:
  "\<not> (title empty_title_chat = Some [] \<longrightarrow>
      row_label (chat_row (example_env ''en'') empty_title_chat) = [])"
  by (simp add: empty_title_chat_def chat_row_def chat_label_def js_or_def js_plus_def
      js_index_def js_slice_def js_lit_def)

text \<open>
  C7. Each chat row carries the relative time that \<open>formatDistanceToNow\<close> gives for the
  chat's \<open>lastMessageAt\<close>, with the suffix and with the locale of the active language:
  the alternate locale \<open>zhCN\<close> exactly when the language tag starts with \<open>zh\<close>, and the
  default locale of the formatter otherwise.
\<close>

theorem chat_row_time_locale:
  "map row_time (filter (\<lambda>r. \<not> is_view_all r) (render E chats)) =
     map (\<lambda>chat. formatDistanceToNow E (lastMessageAt chat)
            \<lparr>addSuffix = True, locale_option = getLocale E\<rparr>) chats \<and>
   (getLocale E = Some zhCN) = startsWith (i18n_language E) (js_lit ''zh'') \<and>
   (getLocale E = None) = (\<not> startsWith (i18n_language E) (js_lit ''zh''))"
proof -
  have "filter (\<lambda>r. \<not> is_view_all r) (render E chats) = map (chat_row E) chats"
    by (induction chats) (simp_all add: render_def chat_row_def)
  then show ?thesis
    by (simp add: chat_row_def getLocale_def)
qed

theorem chat_row_time_locale_witness:
  "getLocale (example_env ''zh-CN'') = Some zhCN \<and>
   getLocale (example_env ''en-US'') = None \<and>
   map row_time (filter (\<lambda>r. \<not> is_view_all r) (render (example_env ''zh-CN'') [no_message_chat])) =
     [js_lit ''zh''] \<and>
   map row_time (filter (\<lambda>r. \<not> is_view_all r) (render (example_env ''en-US'') [no_message_chat])) =
     [js_lit ''en'']"
proof -
  have zh: "startsWith (i18n_language (example_env ''zh-CN'')) (js_lit ''zh'')"
    by (simp add: example_env_def startsWith_def js_lit_def)
  have en: "\<not> startsWith (i18n_language (example_env ''en-US'')) (js_lit ''zh'')"
    by (simp add: example_env_def startsWith_def js_lit_def)
  have a: "getLocale (example_env ''zh-CN'') = Some zhCN"
    using chat_row_time_locale [of "example_env ''zh-CN''" "[]"] zh by simp
  have b: "getLocale (example_env ''en-US'') = None"
    using chat_row_time_locale [of "example_env ''en-US''" "[]"] en by simp
  show ?thesis
    using chat_row_time_locale [of "example_env ''zh-CN''" "[no_message_chat]"]
      chat_row_time_locale [of "example_env ''en-US''" "[no_message_chat]"] a b
    by (simp add: example_env_def)
qed

text \<open>
  C10. For a chat with no title and no messages the label is computed without an
  error: \<open>chat.messages[0]\<close> is \<open>undefined\<close>, the optional chain stops there, and
  \<open>undefined + "..."\<close> is the string \<open>undefined...\<close>.
\<close>

theorem label_without_title_and_messages:
  assumes "title chat = None" and "messages chat = []"
  shows "row_label (chat_row E chat) = js_lit ''undefined...''"
  using assms
  by (simp add: chat_row_def chat_label_def js_or_def js_plus_def js_index_def js_lit_def)

theorem label_without_title_and_messages_witness:
  "title no_message_chat = None \<and> messages no_message_chat = [] \<and>
   row_label (chat_row (example_env ''en'') no_message_chat) = js_lit ''undefined...''"
proof -
  have t: "title no_message_chat = None" and m: "messages no_message_chat = []"
    by (simp_all add: no_message_chat_def)
  from label_without_title_and_messages [OF t m] t m show ?thesis
    by simp
qed

section \<open>The component over its lifetime: failure and phases\<close>

text \<open>
  C1, as the code has it. When the read fails, whatever renders come before and
  whatever events come after, the component holds no chats and renders zero rows, and
  \<open>getAll\<close> has been called once, so nothing is retried. The failure is not caught:
  the promise of \<open>loadRecentChats()\<close> is rejected with the reason of the read, and that
  rejection has no handler.
\<close>

theorem failed_read_stays_empty:
  "recentChats (run (replicate n Rerender @ Settle (Rejected e) # evs)) = [] \<and>
   view E (replicate n Rerender @ Settle (Rejected e) # evs) = [] \<and>
   getAll_calls (run (replicate n Rerender @ Settle (Rejected e) # evs)) = 1 \<and>
   unhandled (run (replicate n Rerender @ Settle (Rejected e) # evs)) = [e]"
proof -
  let ?c = "step mount (Settle (Rejected e))"
  have c: "?c = mount\<lparr>pending := False, unhandled := [e]\<rparr>"
    by (simp add: mount_def loadRecentChats_Rejected)
  then have "\<not> pending ?c"
    by simp
  then have "foldl step ?c evs = ?c"
    by (rule foldl_step_not_pending)
  then have "run (replicate n Rerender @ Settle (Rejected e) # evs) = ?c"
    by (simp add: run_def foldl_step_Rerender)
  with c show ?thesis
    by (simp add: view_def render_def mount_def)
qed

text \<open>
  C1, as the specification states it, fails: the component does not recover from the
  failed read by itself, the rejection leaves it unhandled.
\<close>

theorem failed_read_counterexample:
  "\<not> (recentChats (run [Settle (Rejected (Error ''read failed''))]) = [] \<and>
      unhandled (run [Settle (Rejected (Error ''read failed''))]) = [])"
  by (simp add: run_def mount_def loadRecentChats_def)

text \<open>
  C8. The component is in one of two phases: empty, holding no chats, or populated,
  holding 1 to 5 chats. It is empty when mounted; along any events it goes from empty
  to populated at most once and never from populated to empty; and the step that
  populates it is the settling of the pending read with a non-empty result.
\<close>

theorem two_phases_one_transition:
  "(phase_of (run evs) = Empty \<longrightarrow> recentChats (run evs) = []) \<and>
   (phase_of (run evs) = Populated \<longrightarrow>
      1 \<le> length (recentChats (run evs)) \<and> length (recentChats (run evs)) \<le> 5) \<and>
   phase_of mount = Empty \<and>
   count_transitions Empty Populated mount evs \<le> 1 \<and>
   count_transitions Populated Empty mount evs = 0 \<and>
   (phase_of (run evs) = Empty \<and> phase_of (run (evs @ [e])) = Populated \<longrightarrow>
      pending (run evs) \<and> (\<exists>allChats. allChats \<noteq> [] \<and> e = Settle (Fulfilled allChats)))"
proof -
  have a: "phase_of (run evs) = Empty \<longrightarrow> recentChats (run evs) = []"
    by (simp add: phase_of_def)
  have "phase_of (run evs) = Populated \<longrightarrow> recentChats (run evs) \<noteq> []"
    by (simp add: phase_of_def)
  then have b: "phase_of (run evs) = Populated \<longrightarrow>
      1 \<le> length (recentChats (run evs)) \<and> length (recentChats (run evs)) \<le> 5"
    using run_length_le [of evs] by (cases "recentChats (run evs)") simp_all
  have c: "phase_of mount = Empty"
    by (simp add: phase_of_def mount_def)
  have d: "phase_of (run evs) = Empty \<and> phase_of (run (evs @ [e])) = Populated \<longrightarrow>
      pending (run evs) \<and> (\<exists>allChats. allChats \<noteq> [] \<and> e = Settle (Fulfilled allChats))"
    using populate_only_on_read [of "run evs" e] by (simp only: run_snoc) blast
  from a b c d populate_at_most_once [of mount evs] never_back_to_empty [of mount evs]
  show ?thesis
    by blast
qed

theorem two_phases_one_transition_witness:
  "phase_of (run [Rerender]) = Empty \<and>
   phase_of (run ([Rerender] @ [Settle (Fulfilled six_chats)])) = Populated \<and>
   pending (run [Rerender]) \<and>
   length (recentChats (run [Rerender, Settle (Fulfilled six_chats), Rerender, Settle (Fulfilled [])])) = 5 \<and>
   count_transitions Empty Populated mount
     [Rerender, Settle (Fulfilled six_chats), Rerender, Settle (Fulfilled [])] = 1 \<and>
   count_transitions Populated Empty mount
     [Rerender, Settle (Fulfilled six_chats), Rerender, Settle (Fulfilled [])] = 0"
proof -
  let ?evs = "[Rerender, Settle (Fulfilled six_chats), Rerender, Settle (Fulfilled [])]"
  have six: "six_chats \<noteq> []" "length (recent six_chats) = 5"
    by (simp_all add: length_recent) (simp_all add: six_chats_def)
  then have r: "recent six_chats \<noteq> []"
    by auto
  have e: "phase_of (run [Rerender]) = Empty"
    by (simp add: run_def mount_def phase_of_def)
  have p: "phase_of (run ([Rerender] @ [Settle (Fulfilled six_chats)])) = Populated"
    using six r by (simp add: run_def mount_def phase_of_def loadRecentChats_Fulfilled)
  have n: "count_transitions Empty Populated mount ?evs = 1"
    using six r by (simp add: mount_def phase_of_def loadRecentChats_Fulfilled)
  have l: "length (recentChats (run ?evs)) = 5"
    using six by (simp add: run_def mount_def loadRecentChats_Fulfilled)
  from two_phases_one_transition [of "[Rerender]" "Settle (Fulfilled six_chats)"] e p
  have "pending (run [Rerender])"
    by blast
  with e p n l two_phases_one_transition [of ?evs] show ?thesis
    by simp
qed

end
